theory Spec2Isabelle
  imports Complex_Main "HOL-Library.Char_ord" "HOL-Library.List_Lexorder" "HOL-Library.Multiset"
begin

section \<open>The retrieval index of genai\_demo.py (class RAGDemo)\<close>

text \<open>
  The class keeps three fields: \<open>documents\<close>, \<open>vectorizer\<close> (a
  \<open>TfidfVectorizer(stop_words='english')\<close>) and \<open>document_vectors\<close>. Its two
  methods call scikit-learn (\<open>fit_transform\<close>, \<open>transform\<close>,
  \<open>cosine_similarity\<close>) and numpy (\<open>argsort\<close>, slicing). The library calls
  are modelled by what the library computes with the constructor arguments used here
  (lowercasing, token pattern \<open>\b\w\w+\b\<close>, stop-word removal, smoothed idf,
  l2 normalisation, zero norms replaced by 1). Two parts of the libraries are parameters:
  the English stop-word table (\<open>sw\<close>) and numpy's \<open>argsort\<close> (\<open>asort\<close>),
  whose order among equal keys the default sort kind does not fix. Strings are ASCII
  byte strings; float64 scores are computed in exact real arithmetic. An exception is
  a value of \<open>py_error\<close>.
\<close>

datatype py_error = ValueError | NotFittedError | IndexError

subsection \<open>The analyzer: lowercase, tokens of two or more word characters, stop words\<close>

definition is_word_char :: "char \<Rightarrow> bool" where
  "is_word_char c =
     (let n = (of_char c :: nat)
      in (48 \<le> n \<and> n \<le> 57) \<or> (65 \<le> n \<and> n \<le> 90) \<or> n = 95 \<or> (97 \<le> n \<and> n \<le> 122))"

definition lower_char :: "char \<Rightarrow> char" where
  "lower_char c =
     (let n = (of_char c :: nat) in if 65 \<le> n \<and> n \<le> 90 then char_of (n + 32) else c)"

fun word_runs :: "string \<Rightarrow> string \<Rightarrow> string list" where
  "word_runs cur [] = (if cur = [] then [] else [cur])"
| "word_runs cur (c # cs) =
     (if is_word_char c then word_runs (cur @ [c]) cs
      else (if cur = [] then [] else [cur]) @ word_runs [] cs)"

definition tokenize :: "string \<Rightarrow> string list" where
  "tokenize doc = filter (\<lambda>w. 2 \<le> length w) (word_runs [] doc)"

definition analyzer :: "string list \<Rightarrow> string \<Rightarrow> string list" where
  "analyzer sw doc = filter (\<lambda>w. w \<notin> set sw) (tokenize (map lower_char doc))"

subsection \<open>Vectors: l2 normalisation and dot product\<close>

definition l2_norm :: "real list \<Rightarrow> real" where
  "l2_norm v = sqrt (sum_list (map (\<lambda>x. x * x) v))"

definition l2_normalize :: "real list \<Rightarrow> real list" where
  "l2_normalize v = (let n = l2_norm v in map (\<lambda>x. x / (if n = 0 then 1 else n)) v)"

definition dot :: "real list \<Rightarrow> real list \<Rightarrow> real" where
  "dot u v = sum_list (map2 (\<lambda>x y. x * y) u v)"

subsection \<open>TfidfVectorizer\<close>

record tfidf_fit =
  vocabulary :: "string list"
  idf :: "real list"

record tfidf_vectorizer =
  stop_words :: "string list"
  fitted :: "tfidf_fit option"

definition count_vector :: "string list \<Rightarrow> string list \<Rightarrow> nat list" where
  "count_vector vocab toks = map (\<lambda>t. count_list toks t) vocab"

definition idf_weight :: "nat \<Rightarrow> nat \<Rightarrow> real" where
  "idf_weight n df = ln ((1 + real n) / (1 + real df)) + 1"

definition tfidf_row :: "real list \<Rightarrow> nat list \<Rightarrow> real list" where
  "tfidf_row ws counts = l2_normalize (map2 (\<lambda>c w. real c * w) counts ws)"

definition fit_transform :: "string list \<Rightarrow> string list \<Rightarrow> py_error + (tfidf_fit \<times> real list list)" where
  "fit_transform sw raw_documents =
     (let toks = map (analyzer sw) raw_documents;
          vocab = sort (remdups (concat toks))
      in if vocab = [] then Inl ValueError
         else
           let ws = map (\<lambda>t. idf_weight (length raw_documents)
                                 (length (filter (\<lambda>d. t \<in> set d) toks))) vocab
           in Inr (\<lparr>vocabulary = vocab, idf = ws\<rparr>,
                   map (\<lambda>d. tfidf_row ws (count_vector vocab d)) toks))"

definition transform :: "tfidf_vectorizer \<Rightarrow> string \<Rightarrow> py_error + real list" where
  "transform v raw =
     (case fitted v of
        None \<Rightarrow> Inl NotFittedError
      | Some f \<Rightarrow>
          Inr (tfidf_row (idf f) (count_vector (vocabulary f) (analyzer (stop_words v) raw))))"

subsection \<open>cosine\_similarity of one query row against the document rows\<close>

definition cosine_similarity :: "real list \<Rightarrow> real list list \<Rightarrow> py_error + real list" where
  "cosine_similarity x Y =
     (if x = [] then Inl ValueError
      else if Y = [] then Inl ValueError
      else if list_all (\<lambda>y. length y = length x) Y
      then Inr (map (\<lambda>y. dot (l2_normalize x) (l2_normalize y)) Y)
      else Inl ValueError)"

subsection \<open>numpy: the slice \<open>a[-top_k:]\<close>, reversal, and argsort\<close>

definition slice_from :: "int \<Rightarrow> 'a list \<Rightarrow> 'a list" where
  "slice_from start xs =
     (let n = int (length xs);
          b = (if start < 0 then max (start + n) 0 else min start n)
      in drop (nat b) xs)"

definition top_indices :: "(real list \<Rightarrow> nat list) \<Rightarrow> real list \<Rightarrow> int \<Rightarrow> nat list" where
  "top_indices asort similarities top_k = rev (slice_from (- top_k) (asort similarities))"

definition valid_argsort :: "(real list \<Rightarrow> nat list) \<Rightarrow> bool" where
  "valid_argsort asort =
     (\<forall>xs. distinct (asort xs) \<and> set (asort xs) = {0..<length xs}
           \<and> sorted (map (\<lambda>i. xs ! i) (asort xs)))"

definition argsort_stable :: "real list \<Rightarrow> nat list" where
  "argsort_stable xs = map snd (sort_key fst (zip xs [0..<length xs]))"

subsection \<open>RAGDemo\<close>

record rag_demo =
  documents :: "string list"
  vectorizer :: tfidf_vectorizer
  document_vectors :: "real list list option"

record search_result =
  document :: string
  similarity_score :: real
  rank :: int

definition RAGDemo_init :: "string list \<Rightarrow> rag_demo" where
  "RAGDemo_init sw =
     \<lparr>documents = [], vectorizer = \<lparr>stop_words = sw, fitted = None\<rparr>, document_vectors = None\<rparr>"

definition current_vocabulary :: "rag_demo \<Rightarrow> string list" where
  "current_vocabulary s = (case fitted (vectorizer s) of None \<Rightarrow> [] | Some f \<Rightarrow> vocabulary f)"

text \<open>
  \<^verbatim>\<open>
  def add_documents(self, documents):
      self.documents = documents
      self.document_vectors = self.vectorizer.fit_transform(documents)
  \<close>
  The first assignment is done before \<open>fit_transform\<close> can raise, so an
  exception leaves the new \<open>documents\<close> with the old \<open>document_vectors\<close>.
  \<open>fit_transform\<close> replaces the vectorizer's idf transformer by an unfitted one
  before it counts the vocabulary, so after a failed call \<open>transform\<close> raises
  \<open>NotFittedError\<close>: the fitted part is \<open>None\<close>. The result pairs the
  exception, if any, with the state the call leaves.
\<close>

definition add_documents :: "string list \<Rightarrow> rag_demo \<Rightarrow> py_error option \<times> rag_demo" where
  "add_documents docs s =
     (let s1 = s\<lparr>documents := docs\<rparr>
      in case fit_transform (stop_words (vectorizer s1)) docs of
           Inl e \<Rightarrow> (Some e, s1\<lparr>vectorizer := (vectorizer s1)\<lparr>fitted := None\<rparr>\<rparr>)
         | Inr (f, X) \<Rightarrow>
             (None, s1\<lparr>vectorizer := (vectorizer s1)\<lparr>fitted := Some f\<rparr>,
                       document_vectors := Some X\<rparr>))"

text \<open>
  \<^verbatim>\<open>
  def search_documents(self, query, top_k=3):
      if not self.documents:
          return []
      query_vector = self.vectorizer.transform([query])
      similarities = cosine_similarity(query_vector, self.document_vectors).flatten()
      top_indices = similarities.argsort()[-top_k:][::-1]
      results = []
      for idx in top_indices:
          results.append({"document": self.documents[idx],
                          "similarity_score": float(similarities[idx]),
                          "rank": len(results) + 1})
      return results
  \<close>
  The loop is \<open>build_results\<close>, with \<open>results\<close> as accumulator; an index
  outside \<open>documents\<close> raises \<open>IndexError\<close>. With
  \<open>document_vectors\<close> still \<open>None\<close>, \<open>cosine_similarity\<close> compares
  the query row with itself.
\<close>

fun build_results :: "string list \<Rightarrow> real list \<Rightarrow> nat list \<Rightarrow> search_result list
                        \<Rightarrow> py_error + search_result list" where
  "build_results docs sims [] results = Inr results"
| "build_results docs sims (idx # rest) results =
     (if idx < length docs \<and> idx < length sims
      then build_results docs sims rest
             (results @ [\<lparr>document = docs ! idx, similarity_score = sims ! idx,
                          rank = int (length results) + 1\<rparr>])
      else Inl IndexError)"

definition similarities_of :: "rag_demo \<Rightarrow> string \<Rightarrow> py_error + real list" where
  "similarities_of s query =
     (case transform (vectorizer s) query of
        Inl e \<Rightarrow> Inl e
      | Inr query_vector \<Rightarrow>
          cosine_similarity query_vector
            (case document_vectors s of None \<Rightarrow> [query_vector] | Some D \<Rightarrow> D))"

definition search_documents ::
    "(real list \<Rightarrow> nat list) \<Rightarrow> string \<Rightarrow> int \<Rightarrow> rag_demo \<Rightarrow> py_error + search_result list" where
  "search_documents asort query top_k s =
     (if documents s = [] then Inr []
      else case similarities_of s query of
             Inl e \<Rightarrow> Inl e
           | Inr similarities \<Rightarrow>
               build_results (documents s) similarities
                 (top_indices asort similarities top_k) [])"

subsection \<open>The corpus and query of \<open>main\<close>\<close>

text \<open>
  \<open>main\<close> builds a fresh \<open>RAGDemo\<close>, loads three documents and searches. The
  stop-word table used for this run lists the words of the English table that occur in
  these texts, and two more for the examples below.
\<close>

definition demo_documents :: "string list" where
  "demo_documents =
     [''AI is transforming healthcare through improved diagnosis.'',
      ''Machine learning predicts equipment failures in manufacturing.'',
      ''AI chatbots revolutionize customer service.'']"

definition demo_query :: string where
  "demo_query = ''How is AI improving healthcare?''"

definition demo_stop_words :: "string list" where
  "demo_stop_words = [''is'', ''through'', ''in'', ''how'', ''the'', ''of'']"

definition demo_index :: rag_demo where
  "demo_index = snd (add_documents demo_documents (RAGDemo_init demo_stop_words))"

text \<open>
  What the scenario needs of the English stop-word table: it lists "is", "through",
  "in" and "how", and none of the other words of the three documents and the query.
\<close>

definition demo_table_ok :: "string list \<Rightarrow> bool" where
  "demo_table_ok sw =
     (list_all (\<lambda>w. w \<in> set sw) [''is'', ''through'', ''in'', ''how'']
      \<and> list_all (\<lambda>w. w \<notin> set sw)
           [''ai'', ''transforming'', ''healthcare'', ''improved'', ''diagnosis'',
            ''machine'', ''learning'', ''predicts'', ''equipment'', ''failures'',
            ''manufacturing'', ''chatbots'', ''revolutionize'', ''customer'', ''service'',
            ''improving''])"

text \<open>
  The similarity of two raw tf-idf rows as the code computes it: each row is normalised
  by the vectorizer and again by \<open>cosine_similarity\<close>.
\<close>

definition cosine :: "real list \<Rightarrow> real list \<Rightarrow> real" where
  "cosine u v = dot (l2_normalize (l2_normalize u)) (l2_normalize (l2_normalize v))"

section \<open>Facts about the model\<close>

lemma slice_from_neg: "0 < k \<Longrightarrow> slice_from (- k) xs = drop (length xs - nat k) xs"
  by (auto simp: slice_from_def Let_def max_def nat_diff_distrib' intro: arg_cong2[where f=drop])

lemma slice_from_zero: "slice_from 0 xs = xs"
  by (simp add: slice_from_def)

lemma length_slice_from_neg: "0 < k \<Longrightarrow> length (slice_from (- k) xs) = min (nat k) (length xs)"
  by (simp add: slice_from_neg)

lemma slice_from_suffix: "\<exists>m. slice_from b xs = drop m xs"
  by (auto simp: slice_from_def Let_def)

lemma build_results_closed:
  "list_all (\<lambda>i. i < length docs \<and> i < length sims) idxs \<Longrightarrow>
   build_results docs sims idxs acc =
     Inr (acc @ map (\<lambda>(p, i). \<lparr>document = docs ! i, similarity_score = sims ! i, rank = int p + 1\<rparr>)
                  (enumerate (length acc) idxs))"
  by (induction idxs arbitrary: acc) auto

lemma valid_argsort_length: "valid_argsort asort \<Longrightarrow> length (asort xs) = length xs"
proof -
  assume v: "valid_argsort asort"
  then have d: "distinct (asort xs)" and s: "set (asort xs) = {0..<length xs}"
    by (auto simp: valid_argsort_def)
  from d have "length (asort xs) = card (set (asort xs))" by (simp add: distinct_card)
  with s show ?thesis by simp
qed

lemma valid_argsort_mset: "valid_argsort asort \<Longrightarrow> mset (asort xs) = mset [0..<length xs]"
  by (metis valid_argsort_def distinct_upt set_eq_iff_mset_eq_distinct set_upt)


lemma length_normalize: "length (l2_normalize v) = length v"
  by (simp add: l2_normalize_def Let_def)

lemma length_tfidf_row: "length (tfidf_row ws c) = min (length c) (length ws)"
  by (simp add: tfidf_row_def length_normalize)

lemma length_count_vector: "length (count_vector vocab toks) = length vocab"
  by (simp add: count_vector_def)

lemma fit_transform_Inr:
  assumes "fit_transform sw C = Inr (f, X)"
  shows "vocabulary f = sort (remdups (concat (map (analyzer sw) C)))"
    and "vocabulary f \<noteq> []"
    and "length (idf f) = length (vocabulary f)"
    and "X = map (\<lambda>d. tfidf_row (idf f) (count_vector (vocabulary f) (analyzer sw d))) C"
  using assms by (auto simp: fit_transform_def Let_def split: if_splits)

lemma fit_transform_Inl: "fit_transform sw C = Inl e \<Longrightarrow> e = ValueError"
  by (auto simp: fit_transform_def Let_def split: if_splits)

lemma fit_transform_nonempty: "fit_transform sw C = Inr (f, X) \<Longrightarrow> C \<noteq> []"
  by (auto simp: fit_transform_def Let_def split: if_splits)

lemma add_documents_None:
  assumes "add_documents C s = (None, s')"
  shows "\<exists>f X. fit_transform (stop_words (vectorizer s)) C = Inr (f, X) \<and>
           s' = \<lparr>documents = C,
                 vectorizer = \<lparr>stop_words = stop_words (vectorizer s), fitted = Some f\<rparr>,
                 document_vectors = Some X\<rparr>"
  using assms by (auto simp: add_documents_def Let_def split: sum.splits)

lemma cosine_similarity_ok:
  assumes "x \<noteq> []" "Y \<noteq> []" "list_all (\<lambda>y. length y = length x) Y"
  shows "cosine_similarity x Y = Inr (map (\<lambda>y. dot (l2_normalize x) (l2_normalize y)) Y)"
  using assms by (simp add: cosine_similarity_def)

lemma similarities_loaded_eq:
  assumes "add_documents C s = (None, s')"
  shows "\<exists>f. fitted (vectorizer s') = Some f \<and>
           similarities_of s' q =
             Inr (map (\<lambda>d. dot (l2_normalize (tfidf_row (idf f)
                                (count_vector (vocabulary f) (analyzer (stop_words (vectorizer s)) q))))
                              (l2_normalize (tfidf_row (idf f)
                                (count_vector (vocabulary f) (analyzer (stop_words (vectorizer s)) d))))) C)"
proof -
  from add_documents_None[OF assms] obtain f X where
    fx: "fit_transform (stop_words (vectorizer s)) C = Inr (f, X)" and
    s': "s' = \<lparr>documents = C,
                 vectorizer = \<lparr>stop_words = stop_words (vectorizer s), fitted = Some f\<rparr>,
                 document_vectors = Some X\<rparr>" by blast
  note ft = fit_transform_Inr[OF fx]
  have ne: "C \<noteq> []" using fx by (rule fit_transform_nonempty)
  define qv where "qv = tfidf_row (idf f)
                 (count_vector (vocabulary f) (analyzer (stop_words (vectorizer s)) q))"
  have lq: "length qv = length (vocabulary f)"
    by (simp add: qv_def length_tfidf_row length_count_vector ft(3))
  have tq': "transform \<lparr>stop_words = stop_words (vectorizer s), fitted = Some f\<rparr> q = Inr qv"
    by (simp add: transform_def qv_def)
  have q0: "qv \<noteq> []" using lq ft(2) by auto
  have lX: "length X = length C" unfolding ft(4) by simp
  have X0: "X \<noteq> []" using lX ne by auto
  have rows: "list_all (\<lambda>y. length y = length qv) X"
    unfolding ft(4) by (simp add: list_all_iff length_tfidf_row length_count_vector ft(3) lq)
  have "similarities_of s' q = Inr (map (\<lambda>y. dot (l2_normalize qv) (l2_normalize y)) X)"
    by (simp add: similarities_of_def tq' s' cosine_similarity_ok[OF q0 X0 rows])
  then show ?thesis
    unfolding ft(4) qv_def by (simp add: s' comp_def)
qed

lemma similarities_loaded:
  assumes "add_documents C s = (None, s')"
  shows "\<exists>sims. similarities_of s' q = Inr sims \<and> length sims = length C"
  using similarities_loaded_eq[OF assms, of q] by auto

lemma top_indices_in_range:
  assumes "valid_argsort asort"
  shows "list_all (\<lambda>i. i < length sims) (top_indices asort sims k)"
proof -
  obtain m where m: "slice_from (- k) (asort sims) = drop m (asort sims)"
    using slice_from_suffix by blast
  have "set (drop m (asort sims)) \<subseteq> set (asort sims)" by (rule set_drop_subset)
  also have "\<dots> = {0..<length sims}" using assms by (simp add: valid_argsort_def)
  finally show ?thesis by (auto simp: top_indices_def m list_all_iff)
qed

lemma search_loaded:
  assumes v: "valid_argsort asort" and a: "add_documents C s = (None, s')"
  shows "\<exists>sims. similarities_of s' q = Inr sims \<and> length sims = length C \<and>
           search_documents asort q k s' =
             Inr (map (\<lambda>(p, i). \<lparr>document = C ! i, similarity_score = sims ! i, rank = int p + 1\<rparr>)
                    (enumerate 0 (top_indices asort sims k)))"
proof -
  from similarities_loaded[OF a] obtain sims where
    sims: "similarities_of s' q = Inr sims" "length sims = length C" by blast
  from add_documents_None[OF a] have d: "documents s' = C" and ne: "C \<noteq> []"
    by (auto dest: fit_transform_nonempty)
  have r: "list_all (\<lambda>i. i < length C \<and> i < length sims) (top_indices asort sims k)"
    using top_indices_in_range[OF v, of sims k] sims(2) by (simp add: list_all_iff)
  show ?thesis
    using sims ne by (simp add: search_documents_def d build_results_closed[OF r])
qed

lemma enumerate_map_rank:
  "map rank (map (\<lambda>(p, i). \<lparr>document = C ! i, similarity_score = sims ! i, rank = int p + 1\<rparr>)
        (enumerate 0 idxs)) = [1..int (length idxs)]"
proof -
  have "map rank (map (\<lambda>(p, i). \<lparr>document = C ! i, similarity_score = sims ! i, rank = int p + 1\<rparr>)
        (enumerate n idxs)) = [int n + 1..int n + int (length idxs)]" for n
  proof (induction idxs arbitrary: n)
    case Nil
    then show ?case by simp
  next
    case (Cons a idxs)
    have "[int n + 1..int n + int (length (a # idxs))] =
            (int n + 1) # [int (Suc n) + 1..int (Suc n) + int (length idxs)]"
      by (subst upto_rec1) (auto simp: add.commute add.left_commute)
    then show ?case using Cons.IH[of "Suc n"] by simp
  qed
  from this[of 0] show ?thesis by simp
qed

lemma enumerate_map_score:
  "map similarity_score (map (\<lambda>(p, i). \<lparr>document = C ! i, similarity_score = sims ! i, rank = int p + 1\<rparr>)
        (enumerate n idxs)) = map (\<lambda>i. sims ! i) idxs"
  by (induction idxs arbitrary: n) auto

lemma enumerate_map_document:
  "map document (map (\<lambda>(p, i). \<lparr>document = C ! i, similarity_score = sims ! i, rank = int p + 1\<rparr>)
        (enumerate n idxs)) = map (\<lambda>i. C ! i) idxs"
  by (induction idxs arbitrary: n) auto

lemma length_top_indices_pos:
  "valid_argsort asort \<Longrightarrow> 0 < k \<Longrightarrow>
   length (top_indices asort sims k) = min (nat k) (length sims)"
  by (simp add: top_indices_def length_slice_from_neg valid_argsort_length)

lemma top_indices_zero: "top_indices asort sims 0 = rev (asort sims)"
  by (simp add: top_indices_def slice_from_zero)

lemma top_indices_descending:
  assumes "valid_argsort asort"
  shows "sorted_wrt (\<lambda>x y. y \<le> x) (map (\<lambda>i. sims ! i) (top_indices asort sims k))"
proof -
  obtain m where m: "slice_from (- k) (asort sims) = drop m (asort sims)"
    using slice_from_suffix by blast
  have "sorted (map (\<lambda>i. sims ! i) (asort sims))"
    using assms by (simp add: valid_argsort_def)
  then have "sorted (drop m (map (\<lambda>i. sims ! i) (asort sims)))"
    by (rule sorted_wrt_drop)
  then have "sorted (map (\<lambda>i. sims ! i) (drop m (asort sims)))"
    by (simp add: drop_map)
  then show ?thesis
    by (simp add: top_indices_def m rev_map[symmetric] sorted_wrt_rev)
qed

lemma zip_upt_fst: "p \<in> set (zip xs [0..<length xs]) \<Longrightarrow> xs ! snd p = fst p"
  by (cases p) (auto simp: set_zip)

lemma valid_argsort_stable: "valid_argsort argsort_stable"
  unfolding valid_argsort_def
proof (intro allI conjI)
  fix xs :: "real list"
  let ?ps = "zip xs [0..<length xs]"
  have "mset (map snd (sort_key fst ?ps)) = mset (map snd ?ps)"
    by (simp only: mset_map mset_sort)
  then have m: "mset (argsort_stable xs) = mset [0..<length xs]"
    by (simp only: argsort_stable_def map_snd_zip length_upt diff_zero)
  show "distinct (argsort_stable xs)"
    using m by (metis distinct_upt mset_eq_imp_distinct_iff)
  show "set (argsort_stable xs) = {0..<length xs}"
    using m by (metis mset_eq_setD set_upt)
  have "map (\<lambda>i. xs ! i) (argsort_stable xs) = map (\<lambda>p. xs ! snd p) (sort_key fst ?ps)"
    by (simp add: argsort_stable_def comp_def)
  also have "\<dots> = map fst (sort_key fst ?ps)"
    by (rule map_cong) (auto dest: zip_upt_fst)
  finally show "sorted (map (\<lambda>i. xs ! i) (argsort_stable xs))"
    by simp
qed

lemma insort_key_ties:
  assumes "sorted_wrt (\<lambda>x y. f y < f x \<or> f x < f y \<or> R x y) L" and "\<forall>y\<in>set L. R x y"
  shows "sorted_wrt (\<lambda>x y. f y < f x \<or> f x < f y \<or> R x y) (insort_key f x L)"
  using assms by (induction L) (auto simp: set_insort_key)

lemma sort_key_ties:
  "sorted_wrt R ps \<Longrightarrow> sorted_wrt (\<lambda>x y. f y < f x \<or> f x < f y \<or> R x y) (sort_key f ps)"
  by (induction ps) (auto intro!: insort_key_ties)

lemma argsort_stable_ties:
  "sorted_wrt (\<lambda>i j. xs ! i < xs ! j \<or> (xs ! i = xs ! j \<and> i < j)) (argsort_stable xs)"
proof -
  let ?ps = "zip xs [0..<length xs]"
  have "sorted_wrt (\<lambda>p q. snd p < snd q) ?ps"
    by (simp add: sorted_wrt_map[symmetric] del: sorted_wrt_map)
  then have t: "sorted_wrt (\<lambda>p q. fst q < fst p \<or> fst p < fst q \<or> snd p < snd q) (sort_key fst ?ps)"
    by (rule sort_key_ties)
  have s: "sorted (map fst (sort_key fst ?ps))" by simp
  have "sorted_wrt (\<lambda>p q. fst p \<le> fst q \<and> (fst q < fst p \<or> fst p < fst q \<or> snd p < snd q)) (sort_key fst ?ps)"
    using s t unfolding sorted_wrt_map by (simp add: sorted_wrt_iff_nth_less)
  then have "sorted_wrt (\<lambda>p q. xs ! snd p < xs ! snd q \<or> (xs ! snd p = xs ! snd q \<and> snd p < snd q)) (sort_key fst ?ps)"
  proof (rule sorted_wrt_mono_rel[rotated])
    fix p q assume "p \<in> set (sort_key fst ?ps)" "q \<in> set (sort_key fst ?ps)"
      and "fst p \<le> fst q \<and> (fst q < fst p \<or> fst p < fst q \<or> snd p < snd q)"
    then show "xs ! snd p < xs ! snd q \<or> (xs ! snd p = xs ! snd q \<and> snd p < snd q)"
      using zip_upt_fst[of p xs] zip_upt_fst[of q xs] by auto
  qed
  then show ?thesis by (simp add: argsort_stable_def sorted_wrt_map)
qed

lemma top_indices_stable_ties:
  "sorted_wrt (\<lambda>i j. sims ! j < sims ! i \<or> (sims ! i = sims ! j \<and> j < i))
     (top_indices argsort_stable sims k)"
proof -
  obtain m where m: "slice_from (- k) (argsort_stable sims) = drop m (argsort_stable sims)"
    using slice_from_suffix by blast
  have "sorted_wrt (\<lambda>i j. sims ! i < sims ! j \<or> (sims ! i = sims ! j \<and> i < j))
          (drop m (argsort_stable sims))"
    using argsort_stable_ties by (rule sorted_wrt_drop)
  then show ?thesis
    by (simp add: top_indices_def m sorted_wrt_rev eq_commute)
qed

lemma analyzer_demo_documents:
  "map (analyzer demo_stop_words) demo_documents =
     [ [''ai'', ''transforming'', ''healthcare'', ''improved'', ''diagnosis''],
      [''machine'', ''learning'', ''predicts'', ''equipment'', ''failures'', ''manufacturing''],
      [''ai'', ''chatbots'', ''revolutionize'', ''customer'', ''service''] ]"
  by code_simp

lemma analyzer_demo_query:
  "analyzer demo_stop_words demo_query = [''ai'', ''improving'', ''healthcare'']"
  by code_simp

lemma demo_vocab: "sort (remdups (concat (map (analyzer demo_stop_words) demo_documents))) = 
  [''ai'', ''chatbots'', ''customer'', ''diagnosis'', ''equipment'', ''failures'', ''healthcare'', ''improved'', ''learning'', ''machine'', ''manufacturing'', ''predicts'', ''revolutionize'', ''service'', ''transforming'']"
  unfolding analyzer_demo_documents by code_simp

lemma vocabulary_empty_iff:
  "sort (remdups (concat xss)) = [] \<longleftrightarrow> list_all (\<lambda>xs. xs = []) xss"
proof -
  have "sort (remdups (concat xss)) = [] \<longleftrightarrow> set (sort (remdups (concat xss))) = {}"
    by (simp only: set_empty)
  also have "\<dots> \<longleftrightarrow> list_all (\<lambda>xs. xs = []) xss"
    by (auto simp: list_all_iff)
  finally show ?thesis .
qed

lemma add_documents_fst:
  "fst (add_documents C s) =
     (if list_ex (\<lambda>d. analyzer (stop_words (vectorizer s)) d \<noteq> []) C then None else Some ValueError)"
  by (auto simp: add_documents_def fit_transform_def Let_def list_ex_iff list_all_iff
        vocabulary_empty_iff)

lemma add_documents_None_snd:
  "list_ex (\<lambda>d. analyzer (stop_words (vectorizer s)) d \<noteq> []) C \<Longrightarrow>
   add_documents C s = (None, snd (add_documents C s))"
  using add_documents_fst[of C s] by (simp add: prod_eq_iff)

lemma demo_loaded:
  "add_documents demo_documents (RAGDemo_init demo_stop_words) = (None, demo_index)"
proof -
  have "list_ex (\<lambda>d. analyzer demo_stop_words d \<noteq> []) demo_documents"
    by code_simp
  then show ?thesis
    unfolding demo_index_def
    by (intro add_documents_None_snd) (simp add: RAGDemo_init_def)
qed

lemma dot_zero_left: "list_all (\<lambda>x. x = 0) u \<Longrightarrow> dot u v = 0"
  unfolding dot_def by (induction u arbitrary: v) (auto simp: zip_Cons1 split: list.splits)

lemma dot_zero_right: "list_all (\<lambda>x. x = 0) v \<Longrightarrow> dot u v = 0"
  unfolding dot_def by (induction v arbitrary: u) (auto simp: zip_Cons split: list.splits)

lemma l2_normalize_zero: "list_all (\<lambda>x. x = 0) v \<Longrightarrow> list_all (\<lambda>x. x = 0) (l2_normalize v)"
  by (simp add: l2_normalize_def Let_def list_all_iff)

lemma tfidf_row_zero:
  "list_all (\<lambda>c. c = 0) counts \<Longrightarrow> list_all (\<lambda>x. x = 0) (tfidf_row ws counts)"
  unfolding tfidf_row_def
  by (rule l2_normalize_zero) (auto simp: list_all_iff dest!: set_zip_leftD)

lemma count_vector_zero:
  "set toks \<inter> set vocab = {} \<Longrightarrow> list_all (\<lambda>c. c = 0) (count_vector vocab toks)"
  by (auto simp: count_vector_def list_all_iff count_list_0_iff)

lemma loaded_state:
  assumes "add_documents C s = (None, s')"
  shows "documents s' = C"
    and "stop_words (vectorizer s') = stop_words (vectorizer s)"
    and "\<exists>f. fitted (vectorizer s') = Some f \<and>
           vocabulary f = sort (remdups (concat (map (analyzer (stop_words (vectorizer s))) C)))"
    and "C \<noteq> []"
  using add_documents_None[OF assms] fit_transform_Inr(1) fit_transform_nonempty by fastforce+

lemma search_not_fitted:
  "fitted (vectorizer s) = None \<Longrightarrow>
   search_documents asort q k s = (if documents s = [] then Inr [] else Inl NotFittedError)"
  by (simp add: search_documents_def similarities_of_def transform_def)

lemma add_documents_failed:
  assumes "fst (add_documents C s) = Some e"
  shows "documents (snd (add_documents C s)) = C"
    and "fitted (vectorizer (snd (add_documents C s))) = None"
  using assms by (auto simp: add_documents_def Let_def split: sum.splits)

lemma add_documents_succeeded:
  assumes "fst (add_documents C s) = None"
  shows "snd (add_documents C s) =
           snd (add_documents C (RAGDemo_init (stop_words (vectorizer s))))"
  using assms by (auto simp: add_documents_def Let_def RAGDemo_init_def split: sum.splits)

lemma add_documents_stop_words:
  "stop_words (vectorizer (snd (add_documents C s))) = stop_words (vectorizer s)"
  by (auto simp: add_documents_def Let_def split: sum.splits)

lemma demo_current_vocabulary:
  "current_vocabulary demo_index =
     [''ai'', ''chatbots'', ''customer'', ''diagnosis'', ''equipment'', ''failures'',
      ''healthcare'', ''improved'', ''learning'', ''machine'', ''manufacturing'', ''predicts'',
      ''revolutionize'', ''service'', ''transforming'']"
  using loaded_state(3)[OF demo_loaded]
  by (auto simp: current_vocabulary_def RAGDemo_init_def demo_vocab)

lemma demo_stop_words_kept: "stop_words (vectorizer demo_index) = demo_stop_words"
  using loaded_state(2)[OF demo_loaded] by (simp add: RAGDemo_init_def)

lemma out_of_vocabulary_zero:
  assumes "add_documents C s = (None, s')"
    and "set (analyzer (stop_words (vectorizer s')) q) \<inter> set (current_vocabulary s') = {}"
    and "similarities_of s' q = Inr sims"
  shows "list_all (\<lambda>x. x = 0) sims"
proof -
  from similarities_loaded_eq[OF assms(1), of q] obtain f where
    ff: "fitted (vectorizer s') = Some f" and
    "similarities_of s' q = Inr (map (\<lambda>d. dot (l2_normalize (tfidf_row (idf f)
                                (count_vector (vocabulary f) (analyzer (stop_words (vectorizer s)) q))))
                              (l2_normalize (tfidf_row (idf f)
                                (count_vector (vocabulary f) (analyzer (stop_words (vectorizer s)) d))))) C)"
    by (elim exE conjE)
  with assms(3) have se: "sims = map (\<lambda>d. dot (l2_normalize (tfidf_row (idf f)
                                (count_vector (vocabulary f) (analyzer (stop_words (vectorizer s)) q))))
                              (l2_normalize (tfidf_row (idf f)
                                (count_vector (vocabulary f) (analyzer (stop_words (vectorizer s)) d))))) C"
    by simp
  have cv: "current_vocabulary s' = vocabulary f" by (simp add: current_vocabulary_def ff)
  have sw: "stop_words (vectorizer s') = stop_words (vectorizer s)"
    using loaded_state(2)[OF assms(1)] .
  have "list_all (\<lambda>x. x = 0) (l2_normalize (tfidf_row (idf f)
          (count_vector (vocabulary f) (analyzer (stop_words (vectorizer s)) q))))"
    using assms(2) unfolding sw cv
    by (intro l2_normalize_zero tfidf_row_zero count_vector_zero)
  then show ?thesis
    unfolding se by (simp add: list_all_iff dot_zero_left)
qed

lemma top_indices_stable_zeros: "top_indices argsort_stable [0, 0, 0] 2 = [2, 1]"
  by (simp add: top_indices_def argsort_stable_def slice_from_def upt_rec)

lemma sum_sq_scaled:
  "sum_list (map (\<lambda>x. x * x) (map (\<lambda>x. x / n) v)) =
     sum_list (map (\<lambda>x. x * x) v) / (n * n :: real)"
  by (induction v) (auto simp: add_divide_distrib)

lemma l2_norm_nonneg: "0 \<le> l2_norm v"
  unfolding l2_norm_def by (intro real_sqrt_ge_zero sum_list_nonneg) auto

lemma l2_norm_scaled: "0 < n \<Longrightarrow> l2_norm (map (\<lambda>x. x / n) v) = l2_norm v / n"
  unfolding l2_norm_def sum_sq_scaled by (simp add: real_sqrt_divide)

lemma l2_normalize_idem: "l2_normalize (l2_normalize v) = l2_normalize v"
proof (cases "l2_norm v = 0")
  case True
  then have "l2_normalize v = v" by (simp add: l2_normalize_def)
  then show ?thesis by simp
next
  case False
  then have p: "0 < l2_norm v" using l2_norm_nonneg[of v] by simp
  have n: "l2_normalize v = map (\<lambda>x. x / l2_norm v) v"
    using False by (simp add: l2_normalize_def)
  have "l2_norm (l2_normalize v) = 1"
    unfolding n using p by (simp add: l2_norm_scaled)
  then have "l2_normalize (l2_normalize v) = map (\<lambda>x. x / 1) (l2_normalize v)"
    by (simp add: l2_normalize_def[of "l2_normalize v"])
  then show ?thesis by simp
qed

lemma dot_scaled: "dot (map (\<lambda>x. x / n) u) (map (\<lambda>y. y / m) v) = dot u v / (n * m)"
  unfolding dot_def
  by (induction u v rule: list_induct2') (auto simp: add_divide_distrib)

lemma dot_l2_normalize:
  "dot (l2_normalize u) (l2_normalize v) =
     dot u v / ((if l2_norm u = 0 then 1 else l2_norm u) * (if l2_norm v = 0 then 1 else l2_norm v))"
  unfolding l2_normalize_def Let_def by (rule dot_scaled)

lemma tokenize_demo_documents:
  "map (\<lambda>d. tokenize (map lower_char d)) demo_documents =
     [ [''ai'', ''is'', ''transforming'', ''healthcare'', ''through'', ''improved'', ''diagnosis''],
      [''machine'', ''learning'', ''predicts'', ''equipment'', ''failures'', ''in'', ''manufacturing''],
      [''ai'', ''chatbots'', ''revolutionize'', ''customer'', ''service''] ]"
  by code_simp

lemma tokenize_demo_query:
  "tokenize (map lower_char demo_query) = [''how'', ''is'', ''ai'', ''improving'', ''healthcare'']"
  by code_simp

lemma analyzer_demo_documents_ok:
  assumes "demo_table_ok sw"
  shows "map (analyzer sw) demo_documents =
     [ [''ai'', ''transforming'', ''healthcare'', ''improved'', ''diagnosis''],
      [''machine'', ''learning'', ''predicts'', ''equipment'', ''failures'', ''manufacturing''],
      [''ai'', ''chatbots'', ''revolutionize'', ''customer'', ''service''] ]"
proof -
  have "map (analyzer sw) demo_documents =
          map (filter (\<lambda>w. w \<notin> set sw)) (map (\<lambda>d. tokenize (map lower_char d)) demo_documents)"
    by (simp add: analyzer_def comp_def)
  also have "\<dots> = [ [''ai'', ''transforming'', ''healthcare'', ''improved'', ''diagnosis''],
      [''machine'', ''learning'', ''predicts'', ''equipment'', ''failures'', ''manufacturing''],
      [''ai'', ''chatbots'', ''revolutionize'', ''customer'', ''service''] ]"
    unfolding tokenize_demo_documents using assms by (simp add: demo_table_ok_def)
  finally show ?thesis .
qed

lemma analyzer_demo_query_ok:
  assumes "demo_table_ok sw"
  shows "analyzer sw demo_query = [''ai'', ''improving'', ''healthcare'']"
  unfolding analyzer_def tokenize_demo_query using assms by (simp add: demo_table_ok_def)

lemma demo_table_ok_demo_stop_words: "demo_table_ok demo_stop_words"
  by code_simp


lemma cosine_eq:
  "cosine u v =
     dot u v / ((if l2_norm u = 0 then 1 else l2_norm u) * (if l2_norm v = 0 then 1 else l2_norm v))"
  unfolding cosine_def l2_normalize_idem by (rule dot_l2_normalize)

lemma demo_vocabulary_sorted:
  "sort (remdups (concat
     [ [''ai'', ''transforming'', ''healthcare'', ''improved'', ''diagnosis''],
      [''machine'', ''learning'', ''predicts'', ''equipment'', ''failures'', ''manufacturing''],
      [''ai'', ''chatbots'', ''revolutionize'', ''customer'', ''service''] ])) =
     [''ai'', ''chatbots'', ''customer'', ''diagnosis'', ''equipment'', ''failures'',
      ''healthcare'', ''improved'', ''learning'', ''machine'', ''manufacturing'', ''predicts'',
      ''revolutionize'', ''service'', ''transforming'']"
  by code_simp

lemma demo_document_frequencies:
  "map (\<lambda>t. length (filter (\<lambda>d. t \<in> set d)
     [ [''ai'', ''transforming'', ''healthcare'', ''improved'', ''diagnosis''],
      [''machine'', ''learning'', ''predicts'', ''equipment'', ''failures'', ''manufacturing''],
      [''ai'', ''chatbots'', ''revolutionize'', ''customer'', ''service''] ]))
     [''ai'', ''chatbots'', ''customer'', ''diagnosis'', ''equipment'', ''failures'',
      ''healthcare'', ''improved'', ''learning'', ''machine'', ''manufacturing'', ''predicts'',
      ''revolutionize'', ''service'', ''transforming''] =
   [2, 1, 1, 1, 1, 1, 1, 1, 1, 1, 1, 1, 1, 1, 1]"
  by code_simp

lemma demo_count_vectors:
  "map (count_vector
     [''ai'', ''chatbots'', ''customer'', ''diagnosis'', ''equipment'', ''failures'',
      ''healthcare'', ''improved'', ''learning'', ''machine'', ''manufacturing'', ''predicts'',
      ''revolutionize'', ''service'', ''transforming''])
     [ [''ai'', ''improving'', ''healthcare''],
      [''ai'', ''transforming'', ''healthcare'', ''improved'', ''diagnosis''],
      [''machine'', ''learning'', ''predicts'', ''equipment'', ''failures'', ''manufacturing''],
      [''ai'', ''chatbots'', ''revolutionize'', ''customer'', ''service''] ] =
   [ [1, 0, 0, 0, 0, 0, 1, 0, 0, 0, 0, 0, 0, 0, 0],
    [1, 0, 0, 1, 0, 0, 1, 1, 0, 0, 0, 0, 0, 0, 1],
    [0, 0, 0, 0, 1, 1, 0, 0, 1, 1, 1, 1, 0, 0, 0],
    [1, 1, 1, 0, 0, 0, 0, 0, 0, 0, 0, 0, 1, 1, 0] ]"
  by code_simp

lemma demo_cosines:
  fixes a h :: real
  assumes "0 < a" and "0 < h"
  defines "ws \<equiv> [a, h, h, h, h, h, h, h, h, h, h, h, h, h, h]"
  defines "raw \<equiv> (\<lambda>c. map2 (\<lambda>c w. real c * w) c ws)"
  defines "rq \<equiv> raw [1, 0, 0, 0, 0, 0, 1, 0, 0, 0, 0, 0, 0, 0, 0]"
  shows "cosine rq (raw [0, 0, 0, 0, 1, 1, 0, 0, 1, 1, 1, 1, 0, 0, 0]) = 0"
    and "0 < cosine rq (raw [1, 1, 1, 0, 0, 0, 0, 0, 0, 0, 0, 0, 1, 1, 0])"
    and "cosine rq (raw [1, 1, 1, 0, 0, 0, 0, 0, 0, 0, 0, 0, 1, 1, 0])
           < cosine rq (raw [1, 0, 0, 1, 0, 0, 1, 1, 0, 0, 0, 0, 0, 0, 1])"
proof -
  let ?r1 = "raw [1, 0, 0, 1, 0, 0, 1, 1, 0, 0, 0, 0, 0, 0, 1]"
  let ?r2 = "raw [0, 0, 0, 0, 1, 1, 0, 0, 1, 1, 1, 1, 0, 0, 0]"
  let ?r3 = "raw [1, 1, 1, 0, 0, 0, 0, 0, 0, 0, 0, 0, 1, 1, 0]"
  have aa: "0 < a * a" and hh: "0 < h * h" using assms(1,2) by simp_all
  have nq: "l2_norm rq = sqrt (a * a + h * h)"
    by (simp add: rq_def raw_def ws_def l2_norm_def)
  have n1: "l2_norm ?r1 = sqrt (a * a + 4 * (h * h))"
    by (simp add: raw_def ws_def l2_norm_def)
  have n3: "l2_norm ?r3 = sqrt (a * a + 4 * (h * h))"
    by (simp add: raw_def ws_def l2_norm_def)
  have d1: "dot rq ?r1 = a * a + h * h"
    by (simp add: rq_def raw_def ws_def dot_def)
  have d2: "dot rq ?r2 = 0"
    by (simp add: rq_def raw_def ws_def dot_def)
  have d3: "dot rq ?r3 = a * a"
    by (simp add: rq_def raw_def ws_def dot_def)
  have pq: "0 < sqrt (a * a + h * h)" using aa hh by simp
  have p1: "0 < sqrt (a * a + 4 * (h * h))" using aa hh by simp
  define D where "D = sqrt (a * a + h * h) * sqrt (a * a + 4 * (h * h))"
  have D: "0 < D" unfolding D_def using pq p1 by simp
  have c1: "cosine rq ?r1 = (a * a + h * h) / D"
    unfolding cosine_eq nq n1 d1 D_def using pq p1 by simp
  have c3: "cosine rq ?r3 = (a * a) / D"
    unfolding cosine_eq nq n3 d3 D_def using pq p1 by simp
  show "cosine rq ?r2 = 0" unfolding cosine_eq d2 by simp
  show "0 < cosine rq ?r3" unfolding c3 using aa D by simp
  show "cosine rq ?r3 < cosine rq ?r1"
    unfolding c1 c3 using hh D by (simp add: divide_strict_right_mono)
qed


lemma fit_transform_idf:
  assumes "fit_transform sw C = Inr (f, X)"
  shows "idf f = map (idf_weight (length C))
                   (map (\<lambda>t. length (filter (\<lambda>d. t \<in> set d) (map (analyzer sw) C))) (vocabulary f))"
  using assms by (auto simp: fit_transform_def Let_def comp_def split: if_splits)

lemma idf_weight_pos: "df \<le> n \<Longrightarrow> 0 < idf_weight n df"
proof -
  assume "df \<le> n"
  then have "1 \<le> (1 + real n) / (1 + real df)" by simp
  then have "0 \<le> ln ((1 + real n) / (1 + real df))" by (rule ln_ge_zero)
  then show ?thesis unfolding idf_weight_def by linarith
qed

lemma valid_argsort_three:
  assumes "valid_argsort asort" and "y < z" and "z < x"
  shows "asort [x, y, z] = [1, 2, 0]"
proof -
  let ?A = "asort [x, y, z]"
  have l: "length ?A = 3" using valid_argsort_length[OF assms(1), of "[x, y, z]"] by simp
  then obtain a b c where A: "?A = [a, b, c]"
    by (auto simp: length_Suc_conv numeral_3_eq_3)
  from assms(1) have "distinct ?A" and "set ?A = {0..<length [x, y, z]}"
    and "sorted (map (\<lambda>i. [x, y, z] ! i) ?A)"
    unfolding valid_argsort_def by blast+
  then have d: "distinct [a, b, c]" and s: "set [a, b, c] = {0..<Suc (Suc (Suc 0))}"
    and o: "sorted (map (\<lambda>i. [x, y, z] ! i) [a, b, c])"
    unfolding A by simp_all
  have "a \<in> set [a, b, c]" "b \<in> set [a, b, c]" "c \<in> set [a, b, c]" by simp_all
  then have "a < 3" "b < 3" "c < 3" unfolding s by simp_all
  then have "a \<in> {0, 1, 2}" "b \<in> {0, 1, 2}" "c \<in> {0, 1, 2}" by auto
  with d o assms(2,3) have "a = 1 \<and> b = 2 \<and> c = 0"
    by (auto simp: nth_Cons')
  with A show ?thesis by simp
qed

lemma top_indices_three:
  assumes "valid_argsort asort" and "y < z" and "z < x"
  shows "top_indices asort [x, y, z] 2 = [0, 2]"
  by (simp add: top_indices_def valid_argsort_three[OF assms] slice_from_def)


lemma demo_similarities:
  assumes ok: "demo_table_ok sw"
    and a: "add_documents demo_documents (RAGDemo_init sw) = (None, s')"
  shows "\<exists>x y z. similarities_of s' demo_query = Inr [x, y, z] \<and> y < z \<and> z < x"
proof -
  let ?V = "[''ai'', ''chatbots'', ''customer'', ''diagnosis'', ''equipment'', ''failures'',
      ''healthcare'', ''improved'', ''learning'', ''machine'', ''manufacturing'', ''predicts'',
      ''revolutionize'', ''service'', ''transforming'']"
  define wa where "wa = idf_weight 3 2"
  define wh where "wh = idf_weight 3 1"
  let ?W = "[wa, wh, wh, wh, wh, wh, wh, wh, wh, wh, wh, wh, wh, wh, wh]"
  have sw: "stop_words (vectorizer (RAGDemo_init sw)) = sw" by (simp add: RAGDemo_init_def)
  from add_documents_None[OF a] obtain f X where
    fx: "fit_transform sw demo_documents = Inr (f, X)" and
    s': "fitted (vectorizer s') = Some f"
    unfolding sw by auto
  have V: "vocabulary f = ?V"
    unfolding fit_transform_Inr(1)[OF fx] analyzer_demo_documents_ok[OF ok]
    by (rule demo_vocabulary_sorted)
  have n: "length demo_documents = 3" by (simp add: demo_documents_def)
  have W: "idf f = ?W"
    unfolding fit_transform_idf[OF fx] V analyzer_demo_documents_ok[OF ok]
      demo_document_frequencies n
    by (simp add: wa_def wh_def)
  have cv: "count_vector ?V [''ai'', ''improving'', ''healthcare''] =
              [1, 0, 0, 0, 0, 0, 1, 0, 0, 0, 0, 0, 0, 0, 0]"
    "count_vector ?V [''ai'', ''transforming'', ''healthcare'', ''improved'', ''diagnosis''] =
              [1, 0, 0, 1, 0, 0, 1, 1, 0, 0, 0, 0, 0, 0, 1]"
    "count_vector ?V [''machine'', ''learning'', ''predicts'', ''equipment'', ''failures'',
                      ''manufacturing''] =
              [0, 0, 0, 0, 1, 1, 0, 0, 1, 1, 1, 1, 0, 0, 0]"
    "count_vector ?V [''ai'', ''chatbots'', ''revolutionize'', ''customer'', ''service''] =
              [1, 1, 1, 0, 0, 0, 0, 0, 0, 0, 0, 0, 1, 1, 0]"
    using demo_count_vectors by simp_all
  define raw where "raw = (\<lambda>c. map2 (\<lambda>c w. real c * w) c ?W)"
  define rq where "rq = raw [1, 0, 0, 0, 0, 0, 1, 0, 0, 0, 0, 0, 0, 0, 0]"
  have row: "l2_normalize (tfidf_row ?W c) = l2_normalize (l2_normalize (raw c))" for c
    by (simp only: tfidf_row_def raw_def)
  from similarities_loaded_eq[OF a, of demo_query] s'
  have "similarities_of s' demo_query =
          Inr (map (\<lambda>d. dot (l2_normalize (tfidf_row (idf f)
                                (count_vector (vocabulary f) (analyzer sw demo_query))))
                              (l2_normalize (tfidf_row (idf f)
                                (count_vector (vocabulary f) d))))
                 (map (analyzer sw) demo_documents))"
    unfolding sw by (auto simp: comp_def)
  then have sims: "similarities_of s' demo_query =
          Inr [cosine rq (raw [1, 0, 0, 1, 0, 0, 1, 1, 0, 0, 0, 0, 0, 0, 1]),
               cosine rq (raw [0, 0, 0, 0, 1, 1, 0, 0, 1, 1, 1, 1, 0, 0, 0]),
               cosine rq (raw [1, 1, 1, 0, 0, 0, 0, 0, 0, 0, 0, 0, 1, 1, 0])]"
    unfolding analyzer_demo_documents_ok[OF ok] analyzer_demo_query_ok[OF ok] V W
    by (simp only: list.map cv row cosine_def rq_def)
  have pa: "0 < wa" and ph: "0 < wh"
    unfolding wa_def wh_def by (rule idf_weight_pos, simp)+
  show ?thesis
    unfolding sims rq_def raw_def using demo_cosines[OF pa ph] by simp
qed


lemma demo_load_ok:
  assumes "demo_table_ok sw"
  shows "add_documents demo_documents (RAGDemo_init sw) =
           (None, snd (add_documents demo_documents (RAGDemo_init sw)))"
proof -
  have "list_ex (\<lambda>t. t \<noteq> []) (map (analyzer sw) demo_documents)"
    unfolding analyzer_demo_documents_ok[OF assms] by simp
  then have "list_ex (\<lambda>d. analyzer sw d \<noteq> []) demo_documents"
    by (simp add: list_ex_iff)
  then show ?thesis
    by (intro add_documents_None_snd) (simp add: RAGDemo_init_def)
qed

text \<open>
  In exact arithmetic every similarity of a loaded index lies between 0 and 1: the
  weights are non-negative and both rows are normalised. The program computes in
  float64, where the rounded dot product of two normalised rows can exceed 1 in the
  last place; the bound below is about the exact values only.
\<close>

lemma l2_norm_sq: "l2_norm v * l2_norm v = sum_list (map (\<lambda>x. x * x) v)"
proof -
  have "0 \<le> sum_list (map (\<lambda>x. x * x) v)" by (intro sum_list_nonneg) auto
  then show ?thesis unfolding l2_norm_def by simp
qed

lemma l2_norm_l2_normalize: "l2_norm (l2_normalize v) = (if l2_norm v = 0 then 0 else 1)"
proof (cases "l2_norm v = 0")
  case True
  then have "l2_normalize v = v" by (simp add: l2_normalize_def)
  with True show ?thesis by simp
next
  case False
  then have p: "0 < l2_norm v" using l2_norm_nonneg[of v] by simp
  have "l2_normalize v = map (\<lambda>x. x / l2_norm v) v"
    using False by (simp add: l2_normalize_def)
  then show ?thesis using p False by (simp add: l2_norm_scaled)
qed

lemma sum_sq_l2_normalize: "sum_list (map (\<lambda>x. x * x) (l2_normalize v)) \<le> 1"
  unfolding l2_norm_sq[symmetric] l2_norm_l2_normalize by simp

lemma dot_le_half_squares:
  "2 * dot u v \<le> sum_list (map (\<lambda>x. x * x) u) + sum_list (map (\<lambda>x. x * x) v)"
  unfolding dot_def
proof (induction u v rule: list_induct2')
  case 1
  then show ?case by simp
next
  case (2 x xs)
  have "0 \<le> sum_list (map (\<lambda>x. x * x) (x # xs))" by (intro sum_list_nonneg) auto
  then show ?case by simp
next
  case (3 y ys)
  have "0 \<le> sum_list (map (\<lambda>x. x * x) (y # ys))" by (intro sum_list_nonneg) auto
  then show ?case by simp
next
  case (4 x xs y ys)
  have "2 * (x * y) \<le> x * x + y * y" using sum_squares_bound[of x y] by (simp add: power2_eq_square)
  with 4 show ?case by (simp add: algebra_simps)
qed

lemma dot_l2_normalize_le_1: "dot (l2_normalize u) (l2_normalize v) \<le> 1"
  using dot_le_half_squares[of "l2_normalize u" "l2_normalize v"]
    sum_sq_l2_normalize[of u] sum_sq_l2_normalize[of v] by linarith

lemma dot_nonneg: "list_all (\<lambda>x. 0 \<le> x) u \<Longrightarrow> list_all (\<lambda>x. 0 \<le> x) v \<Longrightarrow> 0 \<le> dot u v"
  unfolding dot_def by (induction u v rule: list_induct2') auto

lemma l2_normalize_nonneg:
  "list_all (\<lambda>x. 0 \<le> x) v \<Longrightarrow> list_all (\<lambda>x. 0 \<le> x) (l2_normalize v)"
  using l2_norm_nonneg[of v] by (auto simp: l2_normalize_def Let_def list_all_iff)

lemma tfidf_row_nonneg:
  "list_all (\<lambda>w. 0 \<le> w) ws \<Longrightarrow> list_all (\<lambda>x. 0 \<le> x) (tfidf_row ws c)"
  unfolding tfidf_row_def
  by (rule l2_normalize_nonneg) (auto simp: list_all_iff dest!: set_zip_rightD)

lemma fit_idf_nonneg:
  assumes "fit_transform sw C = Inr (f, X)"
  shows "list_all (\<lambda>w. 0 \<le> w) (idf f)"
proof -
  have "0 \<le> idf_weight (length C) (length (filter P (map (analyzer sw) C)))" for P
    using idf_weight_pos[of "length (filter P (map (analyzer sw) C))" "length C"]
      length_filter_le[of P "map (analyzer sw) C"] by simp
  then show ?thesis
    unfolding fit_transform_idf[OF assms] by (simp add: list_all_iff)
qed

lemma similarities_unit_interval_exact:
  assumes "add_documents C s = (None, s')" and "similarities_of s' q = Inr sims"
  shows "list_all (\<lambda>x. 0 \<le> x \<and> x \<le> 1) sims"
proof -
  from add_documents_None[OF assms(1)] obtain f X where
    fx: "fit_transform (stop_words (vectorizer s)) C = Inr (f, X)" and
    s': "fitted (vectorizer s') = Some f" by auto
  note nn = fit_idf_nonneg[OF fx]
  from similarities_loaded_eq[OF assms(1), of q] s' assms(2)
  have se: "sims = map (\<lambda>d. dot (l2_normalize (tfidf_row (idf f)
                                (count_vector (vocabulary f) (analyzer (stop_words (vectorizer s)) q))))
                              (l2_normalize (tfidf_row (idf f)
                                (count_vector (vocabulary f) (analyzer (stop_words (vectorizer s)) d))))) C"
    by auto
  show ?thesis
    unfolding se
    by (auto simp: list_all_iff dot_l2_normalize_le_1
          intro!: dot_nonneg l2_normalize_nonneg tfidf_row_nonneg nn)
qed

section \<open>The claims\<close>

text \<open>
  C1. For every non-empty corpus loaded by \<open>add_documents\<close>, every query and every
  positive \<open>top_k\<close>, \<open>search_documents\<close> returns exactly
  \<open>min(top_k, |C|)\<close> results, their ranks are 1, 2, ... in output order, and their
  similarity scores never increase along that order. This holds for every argsort that
  returns a sorting permutation of the indices.
\<close>

theorem search_documents_count_ranks_order:
  assumes "valid_argsort asort" and "add_documents C s = (None, s')"
    and "C \<noteq> []" and "0 < top_k"
  shows "\<exists>rs. search_documents asort q top_k s' = Inr rs
           \<and> length rs = min (nat top_k) (length C)
           \<and> map rank rs = [1..int (min (nat top_k) (length C))]
           \<and> sorted_wrt (\<lambda>x y. y \<le> x) (map similarity_score rs)"
proof -
  from search_loaded[OF assms(1,2), of q top_k] obtain sims where
    l: "length sims = length C" and
    r: "search_documents asort q top_k s' =
          Inr (map (\<lambda>(p, i). \<lparr>document = C ! i, similarity_score = sims ! i, rank = int p + 1\<rparr>)
                 (enumerate 0 (top_indices asort sims top_k)))" by blast
  have n: "length (top_indices asort sims top_k) = min (nat top_k) (length C)"
    using length_top_indices_pos[OF assms(1,4), of sims] l by simp
  show ?thesis
    unfolding r
    using n top_indices_descending[OF assms(1), of sims top_k]
    by (simp add: enumerate_map_rank enumerate_map_score del: map_map)
qed

theorem search_documents_count_ranks_order_witness:
  "valid_argsort argsort_stable
   \<and> add_documents demo_documents (RAGDemo_init demo_stop_words) = (None, demo_index)
   \<and> demo_documents \<noteq> [] \<and> (0::int) < 2
   \<and> (\<exists>rs. search_documents argsort_stable demo_query 2 demo_index = Inr rs
           \<and> length rs = 2 \<and> map rank rs = [1, 2]
           \<and> sorted_wrt (\<lambda>x y. y \<le> x) (map similarity_score rs))"
proof -
  have ne: "demo_documents \<noteq> []" by (simp add: demo_documents_def)
  have k: "(0::int) < 2" by simp
  have l: "min (nat 2) (length demo_documents) = 2" by (simp add: demo_documents_def)
  have u: "[1..int 2] = [1, 2]" by (simp add: upto.simps)
  from search_documents_count_ranks_order[OF valid_argsort_stable demo_loaded ne k, of demo_query]
  show ?thesis
    unfolding l u using valid_argsort_stable demo_loaded ne by simp
qed

text \<open>
  C2. With an empty \<open>documents\<close> list (nothing loaded), \<open>search_documents\<close>
  returns the empty sequence for every query and every \<open>top_k\<close>, and raises nothing.
\<close>

theorem search_documents_empty_corpus:
  "documents s = [] \<Longrightarrow> search_documents asort q top_k s = Inr []"
  by (simp add: search_documents_def)

theorem search_documents_empty_corpus_witness:
  "documents (RAGDemo_init demo_stop_words) = []
   \<and> search_documents argsort_stable demo_query 3 (RAGDemo_init demo_stop_words) = Inr []"
proof -
  have d: "documents (RAGDemo_init demo_stop_words) = []" by (simp add: RAGDemo_init_def)
  from search_documents_empty_corpus[OF d] d show ?thesis by simp
qed

text \<open>
  C3, as the code has it. \<open>search_documents\<close> takes its indices from
  \<open>argsort()[-top_k:][::-1]\<close>: an ascending sort, reversed, with no tie-break by
  ascending corpus index. With a stable argsort the output is ordered by descending
  similarity and, among equal similarities, by descending corpus index: of two
  documents with equal scores the one with the higher index comes first.
\<close>

theorem tie_break_stable_argsort:
  assumes "add_documents C s = (None, s')"
  shows "\<exists>sims. similarities_of s' q = Inr sims
           \<and> search_documents argsort_stable q top_k s' =
               Inr (map (\<lambda>(p, i). \<lparr>document = C ! i, similarity_score = sims ! i,
                                     rank = int p + 1\<rparr>)
                      (enumerate 0 (top_indices argsort_stable sims top_k)))
           \<and> sorted_wrt (\<lambda>i j. sims ! j < sims ! i \<or> (sims ! i = sims ! j \<and> j < i))
                 (top_indices argsort_stable sims top_k)"
  using search_loaded[OF valid_argsort_stable assms, of q top_k] top_indices_stable_ties
  by blast

theorem tie_break_stable_argsort_witness:
  "add_documents demo_documents (RAGDemo_init demo_stop_words) = (None, demo_index)
   \<and> (\<exists>sims. similarities_of demo_index demo_query = Inr sims
           \<and> search_documents argsort_stable demo_query 2 demo_index =
               Inr (map (\<lambda>(p, i). \<lparr>document = demo_documents ! i, similarity_score = sims ! i,
                                     rank = int p + 1\<rparr>)
                      (enumerate 0 (top_indices argsort_stable sims 2)))
           \<and> sorted_wrt (\<lambda>i j. sims ! j < sims ! i \<or> (sims ! i = sims ! j \<and> j < i))
                 (top_indices argsort_stable sims 2))"
  using tie_break_stable_argsort[OF demo_loaded, of demo_query 2] demo_loaded by simp

text \<open>
  C3, as stated, fails: an out-of-vocabulary query gives all three documents of
  \<open>main\<close> the score 0, and with \<open>top_k = 2\<close> the third document is ranked
  above the second.
\<close>

theorem tie_break_lower_index_first_counterexample:
  "valid_argsort argsort_stable \<and>
   search_documents argsort_stable ''Blue whales'' 2 demo_index =
     Inr [\<lparr>document = ''AI chatbots revolutionize customer service.'',
           similarity_score = 0, rank = 1\<rparr>,
          \<lparr>document = ''Machine learning predicts equipment failures in manufacturing.'',
           similarity_score = 0, rank = 2\<rparr>]"
proof -
  have a: "analyzer demo_stop_words ''Blue whales'' = [''blue'', ''whales'']" by code_simp
  have v: "set (analyzer (stop_words (vectorizer demo_index)) ''Blue whales'')
             \<inter> set (current_vocabulary demo_index) = {}"
    unfolding demo_stop_words_kept demo_current_vocabulary a by simp
  from search_loaded[OF valid_argsort_stable demo_loaded, of "''Blue whales''" 2] obtain sims where
    sm: "similarities_of demo_index ''Blue whales'' = Inr sims" and
    l: "length sims = length demo_documents" and
    r: "search_documents argsort_stable ''Blue whales'' 2 demo_index =
          Inr (map (\<lambda>(p, i). \<lparr>document = demo_documents ! i, similarity_score = sims ! i,
                                rank = int p + 1\<rparr>)
                 (enumerate 0 (top_indices argsort_stable sims 2)))" by blast
  have z: "list_all (\<lambda>x. x = 0) sims"
    using out_of_vocabulary_zero[OF demo_loaded v sm] .
  have "length sims = 3" using l by (simp add: demo_documents_def)
  with z have s0: "sims = [0, 0, 0]"
    by (auto simp: length_Suc_conv numeral_3_eq_3)
  show ?thesis
    unfolding r s0 top_indices_stable_zeros
    using valid_argsort_stable by (simp add: demo_documents_def)
qed

text \<open>
  C4. The scenario of \<open>main\<close>: after loading the three documents, the query
  "How is AI improving healthcare?" with \<open>top_k = 2\<close> returns the first document
  at rank 1 and the third at rank 2, and the second document's similarity is strictly
  below both of the others. Proved for every sorting argsort and every stop-word table
  that agrees with the English one on the words of the scenario.
\<close>

theorem demo_scenario:
  assumes "valid_argsort asort" and "demo_table_ok sw"
  shows "\<exists>x y z.
           fst (add_documents demo_documents (RAGDemo_init sw)) = None
           \<and> similarities_of (snd (add_documents demo_documents (RAGDemo_init sw))) demo_query =
               Inr [x, y, z]
           \<and> y < z \<and> z < x
           \<and> search_documents asort demo_query 2
                 (snd (add_documents demo_documents (RAGDemo_init sw))) =
               Inr [\<lparr>document = ''AI is transforming healthcare through improved diagnosis.'',
                     similarity_score = x, rank = 1\<rparr>,
                    \<lparr>document = ''AI chatbots revolutionize customer service.'',
                     similarity_score = z, rank = 2\<rparr>]"
proof -
  let ?S = "snd (add_documents demo_documents (RAGDemo_init sw))"
  note a = demo_load_ok[OF assms(2)]
  from demo_similarities[OF assms(2) a] obtain x y z where
    sm: "similarities_of ?S demo_query = Inr [x, y, z]" and o: "y < z" "z < x" by blast
  from search_loaded[OF assms(1) a, of demo_query 2] sm
  have "search_documents asort demo_query 2 ?S =
          Inr (map (\<lambda>(p, i). \<lparr>document = demo_documents ! i, similarity_score = [x, y, z] ! i,
                                rank = int p + 1\<rparr>)
                 (enumerate 0 (top_indices asort [x, y, z] 2)))"
    by auto
  then have "search_documents asort demo_query 2 ?S =
               Inr [\<lparr>document = ''AI is transforming healthcare through improved diagnosis.'',
                     similarity_score = x, rank = 1\<rparr>,
                    \<lparr>document = ''AI chatbots revolutionize customer service.'',
                     similarity_score = z, rank = 2\<rparr>]"
    unfolding top_indices_three[OF assms(1) o] by (simp add: demo_documents_def)
  moreover have "fst (add_documents demo_documents (RAGDemo_init sw)) = None"
    using a by (simp add: prod_eq_iff)
  ultimately show ?thesis using sm o by blast
qed

theorem demo_scenario_witness:
  "valid_argsort argsort_stable \<and> demo_table_ok demo_stop_words
   \<and> (\<exists>x y z.
           fst (add_documents demo_documents (RAGDemo_init demo_stop_words)) = None
           \<and> similarities_of demo_index demo_query = Inr [x, y, z]
           \<and> y < z \<and> z < x
           \<and> search_documents argsort_stable demo_query 2 demo_index =
               Inr [\<lparr>document = ''AI is transforming healthcare through improved diagnosis.'',
                     similarity_score = x, rank = 1\<rparr>,
                    \<lparr>document = ''AI chatbots revolutionize customer service.'',
                     similarity_score = z, rank = 2\<rparr>])"
  unfolding demo_index_def
  using demo_scenario[OF valid_argsort_stable demo_table_ok_demo_stop_words]
    valid_argsort_stable demo_table_ok_demo_stop_words
  by simp

text \<open>
  C5, as the code has it. \<open>add_documents\<close> with an empty sequence raises
  \<open>ValueError\<close>: the vectorizer finds an empty vocabulary. The assignment to
  \<open>documents\<close> has already happened, so every later \<open>search_documents\<close>
  call returns the empty sequence.
\<close>

theorem add_documents_empty:
  "fst (add_documents [] s) = Some ValueError
   \<and> documents (snd (add_documents [] s)) = []
   \<and> search_documents asort q top_k (snd (add_documents [] s)) = Inr []"
  by (simp add: add_documents_def fit_transform_def search_documents_def)

text \<open>
  C5, as stated, fails: on a fresh index the call with the empty sequence raises.
\<close>

theorem add_documents_empty_raises_counterexample:
  "fst (add_documents [] (RAGDemo_init demo_stop_words)) = Some ValueError"
  by (simp add: add_documents_fst)

text \<open>
  C6, as the code has it. When the load returns normally (some document has a term
  that is not a stop word), a document that consists only of stop words has similarity
  0 to every query, and \<open>search_documents\<close> returns normally for every query and
  every \<open>top_k\<close>.
\<close>

theorem stop_word_only_document_scores_zero:
  assumes "valid_argsort asort" and "add_documents C s = (None, s')"
    and "i < length C" and "analyzer (stop_words (vectorizer s)) (C ! i) = []"
  shows "\<exists>sims rs. similarities_of s' q = Inr sims \<and> length sims = length C \<and> sims ! i = 0
           \<and> search_documents asort q top_k s' = Inr rs"
proof -
  from search_loaded[OF assms(1,2), of q top_k] obtain sims where
    sm: "similarities_of s' q = Inr sims" and
    l: "length sims = length C" and
    r: "\<exists>rs. search_documents asort q top_k s' = Inr rs" by blast
  from similarities_loaded_eq[OF assms(2), of q] obtain f where
    "fitted (vectorizer s') = Some f" and
    "similarities_of s' q = Inr (map (\<lambda>d. dot (l2_normalize (tfidf_row (idf f)
                                (count_vector (vocabulary f) (analyzer (stop_words (vectorizer s)) q))))
                              (l2_normalize (tfidf_row (idf f)
                                (count_vector (vocabulary f) (analyzer (stop_words (vectorizer s)) d))))) C)"
    by (elim exE conjE)
  with sm have
    se: "sims = map (\<lambda>d. dot (l2_normalize (tfidf_row (idf f)
                                (count_vector (vocabulary f) (analyzer (stop_words (vectorizer s)) q))))
                              (l2_normalize (tfidf_row (idf f)
                                (count_vector (vocabulary f) (analyzer (stop_words (vectorizer s)) d))))) C"
    by simp
  have "list_all (\<lambda>x. x = 0) (l2_normalize (tfidf_row (idf f)
          (count_vector (vocabulary f) (analyzer (stop_words (vectorizer s)) (C ! i)))))"
    unfolding assms(4)
    by (intro l2_normalize_zero tfidf_row_zero count_vector_zero) simp
  then have "sims ! i = 0"
    unfolding se using assms(3) by (simp add: dot_zero_right)
  with sm l r show ?thesis by blast
qed

theorem stop_word_only_document_scores_zero_witness:
  "valid_argsort argsort_stable
   \<and> add_documents (demo_documents @ [''the a of'']) (RAGDemo_init demo_stop_words) =
       (None, snd (add_documents (demo_documents @ [''the a of'']) (RAGDemo_init demo_stop_words)))
   \<and> 3 < length (demo_documents @ [''the a of''])
   \<and> analyzer (stop_words (vectorizer (RAGDemo_init demo_stop_words)))
         ((demo_documents @ [''the a of'']) ! 3) = []
   \<and> (\<exists>sims rs. similarities_of
                     (snd (add_documents (demo_documents @ [''the a of''])
                             (RAGDemo_init demo_stop_words))) demo_query = Inr sims
           \<and> length sims = 4 \<and> sims ! 3 = 0
           \<and> search_documents argsort_stable demo_query 2
                 (snd (add_documents (demo_documents @ [''the a of''])
                         (RAGDemo_init demo_stop_words))) = Inr rs)"
proof -
  let ?C = "demo_documents @ [''the a of'']"
  let ?s = "RAGDemo_init demo_stop_words"
  have "list_ex (\<lambda>d. analyzer demo_stop_words d \<noteq> []) ?C" by code_simp
  then have a: "add_documents ?C ?s = (None, snd (add_documents ?C ?s))"
    by (intro add_documents_None_snd) (simp add: RAGDemo_init_def)
  have i: "3 < length ?C" by (simp add: demo_documents_def)
  have "analyzer demo_stop_words (?C ! 3) = []" by code_simp
  then have z: "analyzer (stop_words (vectorizer ?s)) (?C ! 3) = []"
    by (simp add: RAGDemo_init_def)
  have l: "length ?C = 4" by (simp add: demo_documents_def)
  from stop_word_only_document_scores_zero[OF valid_argsort_stable a i z, of demo_query 2]
  show ?thesis
    unfolding l using valid_argsort_stable a i z by simp
qed

text \<open>
  C6, as stated, fails: the corpus whose only document is "the a of" has an empty
  vocabulary; \<open>add_documents\<close> raises \<open>ValueError\<close> on it and a later
  search raises \<open>NotFittedError\<close>.
\<close>

theorem stop_word_only_corpus_raises_counterexample:
  "fst (add_documents [''the a of''] (RAGDemo_init demo_stop_words)) = Some ValueError
   \<and> search_documents argsort_stable demo_query 3
         (snd (add_documents [''the a of''] (RAGDemo_init demo_stop_words))) = Inl NotFittedError"
proof -
  have a: "analyzer demo_stop_words ''the a of'' = []" by code_simp
  have f: "fst (add_documents [''the a of''] (RAGDemo_init demo_stop_words)) = Some ValueError"
    by (simp add: add_documents_fst RAGDemo_init_def a)
  from add_documents_failed[OF f] f show ?thesis by (simp add: search_not_fitted)
qed

text \<open>
  C7. After \<open>add_documents(C1)\<close> and then \<open>add_documents(C2)\<close>, every
  \<open>search_documents\<close> call gives what it gives on a fresh index that only ever
  received \<open>C2\<close>: no document, term or weight of \<open>C1\<close> reaches a result.
  The calls that raise are covered too, with the state the exception leaves behind.
\<close>

theorem reload_reflects_only_new_corpus:
  "search_documents asort q top_k (snd (add_documents C2 (snd (add_documents C1 s)))) =
   search_documents asort q top_k
     (snd (add_documents C2 (RAGDemo_init (stop_words (vectorizer s)))))"
proof -
  let ?s1 = "snd (add_documents C1 s)"
  let ?i = "RAGDemo_init (stop_words (vectorizer s))"
  have sw: "stop_words (vectorizer ?s1) = stop_words (vectorizer s)"
    by (rule add_documents_stop_words)
  have swi: "stop_words (vectorizer ?i) = stop_words (vectorizer s)"
    by (simp add: RAGDemo_init_def)
  show ?thesis
  proof (cases "fst (add_documents C2 ?s1)")
    case None
    from add_documents_succeeded[OF None] show ?thesis by (simp add: sw)
  next
    case (Some e)
    then have "fst (add_documents C2 ?i) = Some e"
      by (simp add: add_documents_fst sw swi)
    from add_documents_failed[OF Some] add_documents_failed[OF this]
    show ?thesis by (simp add: search_not_fitted)
  qed
qed

text \<open>
  C9. For every loaded corpus and positive \<open>top_k\<close>, a query that contains no term
  of the current vocabulary (the empty query and an all-stop-word query included) still
  gets \<open>min(top_k, |C|)\<close> results, each with similarity score 0: neither an empty
  sequence nor an error.
\<close>

theorem search_documents_out_of_vocabulary:
  assumes "valid_argsort asort" and "add_documents C s = (None, s')"
    and "C \<noteq> []" and "0 < top_k"
    and "set (analyzer (stop_words (vectorizer s')) q) \<inter> set (current_vocabulary s') = {}"
  shows "\<exists>rs. search_documents asort q top_k s' = Inr rs
           \<and> length rs = min (nat top_k) (length C)
           \<and> list_all (\<lambda>r. similarity_score r = 0) rs"
proof -
  from search_loaded[OF assms(1,2), of q top_k] obtain sims where
    sm: "similarities_of s' q = Inr sims" and
    l: "length sims = length C" and
    r: "search_documents asort q top_k s' =
          Inr (map (\<lambda>(p, i). \<lparr>document = C ! i, similarity_score = sims ! i, rank = int p + 1\<rparr>)
                 (enumerate 0 (top_indices asort sims top_k)))" by blast
  have z: "list_all (\<lambda>x. x = 0) sims"
    by (rule out_of_vocabulary_zero[OF assms(2,5) sm])
  have n: "length (top_indices asort sims top_k) = min (nat top_k) (length C)"
    using length_top_indices_pos[OF assms(1,4), of sims] l by simp
  have rng: "list_all (\<lambda>i. i < length sims) (top_indices asort sims top_k)"
    by (rule top_indices_in_range[OF assms(1)])
  have "list_all (\<lambda>x. x = 0) (map (\<lambda>i. sims ! i) (top_indices asort sims top_k))"
    using z rng by (auto simp: list_all_iff)
  then have "list_all (\<lambda>r. similarity_score r = 0)
          (map (\<lambda>(p, i). \<lparr>document = C ! i, similarity_score = sims ! i, rank = int p + 1\<rparr>)
                 (enumerate 0 (top_indices asort sims top_k)))"
    by (simp only: enumerate_map_score[symmetric, of sims _ C 0] list_all_iff) auto
  then show ?thesis unfolding r using n by simp
qed

theorem search_documents_out_of_vocabulary_witness:
  "valid_argsort argsort_stable
   \<and> add_documents demo_documents (RAGDemo_init demo_stop_words) = (None, demo_index)
   \<and> demo_documents \<noteq> [] \<and> (0::int) < 2
   \<and> set (analyzer (stop_words (vectorizer demo_index)) ''Blue whales'')
         \<inter> set (current_vocabulary demo_index) = {}
   \<and> (\<exists>rs. search_documents argsort_stable ''Blue whales'' 2 demo_index = Inr rs
           \<and> length rs = 2 \<and> list_all (\<lambda>r. similarity_score r = 0) rs)"
proof -
  have ne: "demo_documents \<noteq> []" by (simp add: demo_documents_def)
  have k: "(0::int) < 2" by simp
  have a: "analyzer demo_stop_words ''Blue whales'' = [''blue'', ''whales'']" by code_simp
  have v: "set (analyzer (stop_words (vectorizer demo_index)) ''Blue whales'')
             \<inter> set (current_vocabulary demo_index) = {}"
    unfolding demo_stop_words_kept demo_current_vocabulary a by simp
  have l: "min (nat 2) (length demo_documents) = 2" by (simp add: demo_documents_def)
  from search_documents_out_of_vocabulary[OF valid_argsort_stable demo_loaded ne k v]
  show ?thesis
    unfolding l using valid_argsort_stable demo_loaded ne v by simp
qed

text \<open>
  C10. For every loaded corpus, \<open>search_documents\<close> with \<open>top_k = 0\<close>
  returns all \<open>|C|\<close> documents, ranked 1 to \<open>|C|\<close>: the slice
  \<open>[-0:]\<close> is the whole index array.
\<close>

theorem search_documents_top_k_zero:
  assumes "valid_argsort asort" and "add_documents C s = (None, s')"
  shows "\<exists>rs. search_documents asort q 0 s' = Inr rs
           \<and> length rs = length C
           \<and> map rank rs = [1..int (length C)]
           \<and> mset (map document rs) = mset C"
proof -
  from search_loaded[OF assms, of q 0] obtain sims where
    l: "length sims = length C" and
    r: "search_documents asort q 0 s' =
          Inr (map (\<lambda>(p, i). \<lparr>document = C ! i, similarity_score = sims ! i, rank = int p + 1\<rparr>)
                 (enumerate 0 (top_indices asort sims 0)))" by blast
  have t: "top_indices asort sims 0 = rev (asort sims)" by (rule top_indices_zero)
  have n: "length (asort sims) = length C"
    using valid_argsort_length[OF assms(1), of sims] l by simp
  have "mset (map (\<lambda>i. C ! i) (rev (asort sims))) = image_mset (\<lambda>i. C ! i) (mset (asort sims))"
    by simp
  also have "\<dots> = image_mset (\<lambda>i. C ! i) (mset [0..<length C])"
    using valid_argsort_mset[OF assms(1), of sims] l by simp
  also have "\<dots> = mset (map (\<lambda>i. C ! i) [0..<length C])" by simp
  also have "\<dots> = mset C" by (simp only: map_nth)
  finally have p: "mset (map (\<lambda>i. C ! i) (rev (asort sims))) = mset C" .
  show ?thesis
    unfolding r t using n p
    by (simp add: enumerate_map_rank enumerate_map_document del: map_map mset_map mset_rev)
qed

theorem search_documents_top_k_zero_witness:
  "valid_argsort argsort_stable
   \<and> add_documents demo_documents (RAGDemo_init demo_stop_words) = (None, demo_index)
   \<and> (\<exists>rs. search_documents argsort_stable demo_query 0 demo_index = Inr rs
           \<and> length rs = 3 \<and> map rank rs = [1, 2, 3]
           \<and> mset (map document rs) = mset demo_documents)"
proof -
  have l: "length demo_documents = 3" by (simp add: demo_documents_def)
  have u: "[1..int 3] = [1, 2, 3]" by (simp add: upto.simps)
  from search_documents_top_k_zero[OF valid_argsort_stable demo_loaded, of demo_query]
  show ?thesis
    unfolding l u using valid_argsort_stable demo_loaded by simp
qed

end
